theory Spec2Isabelle
  imports Main "HOL-Library.Word"
begin

section \<open>Data model of \<open>sgl/utils/slangpy.h\<close>\<close>

text \<open>
  The header works with two machine integer types. \<open>int\<close> is the 32-bit signed integer,
  a \<open>32 word\<close> read through \<open>sint\<close>. \<open>size_t\<close> is an unsigned integer whose width is left
  open as the type parameter \<open>'w\<close> (64 on the targets the library is built for); the
  conversions below are the ones C++ performs for a width of at least 32 bits.
  Multiplication of \<open>int\<close> values is modelled as the wrapping multiplication of the
  machine; C++ leaves the overflowing case undefined.
\<close>

type_synonym cint = "32 word"

text \<open>The enumerators of \<open>AccessType\<close> carry a prefix: \<open>write\<close> is a reserved word.\<close>

datatype AccessType = Access_none | Access_read | Access_write | Access_readwrite

datatype CallMode = prim | bwds | fwds

text \<open>
  \<open>SGL_THROW("Shape is invalid")\<close> is the error \<open>InvalidState\<close>. Reading a vector past its
  end has no defined behaviour in C++; the model makes it the result \<open>OutOfRange\<close>, and
  dereferencing an empty optional the result \<open>EmptyOptional\<close>.
\<close>

datatype error = InvalidState | OutOfRange | EmptyOptional

record Shape =
  m_shape :: "cint list option"

subsection \<open>Constructors\<close>

definition Shape_default :: Shape where
  "Shape_default = \<lparr>m_shape = None\<rparr>"

definition Shape_optional :: "cint list option \<Rightarrow> Shape" where
  "Shape_optional shape = \<lparr>m_shape = shape\<rparr>"

definition Shape_list :: "cint list \<Rightarrow> Shape" where
  "Shape_list shape = \<lparr>m_shape = Some shape\<rparr>"

subsection \<open>Access to the vector\<close>

definition as_vector :: "Shape \<Rightarrow> error + cint list" where
  "as_vector s = (case m_shape s of None \<Rightarrow> Inl InvalidState | Some v \<Rightarrow> Inr v)"

definition valid :: "Shape \<Rightarrow> bool" where
  "valid s = (m_shape s \<noteq> None)"

text \<open>\<open>*m_shape\<close>: the unchecked dereference of the optional.\<close>

definition deref :: "'a option \<Rightarrow> error + 'a" where
  "deref x = (case x of None \<Rightarrow> Inl EmptyOptional | Some v \<Rightarrow> Inr v)"

definition size_Shape :: "Shape \<Rightarrow> error + 'w::len word" where
  "size_Shape s = (case as_vector s of Inl e \<Rightarrow> Inl e | Inr v \<Rightarrow> Inr (word_of_nat (length v)))"

text \<open>\<open>operator[]\<close>, the reading form and the form that hands out a reference to assign through.\<close>

definition operator_index :: "Shape \<Rightarrow> 'w::len word \<Rightarrow> error + cint" where
  "operator_index s i =
     (case as_vector s of
        Inl e \<Rightarrow> Inl e
      | Inr v \<Rightarrow> if unat i < length v then Inr (v ! unat i) else Inl OutOfRange)"

definition operator_index_assign :: "Shape \<Rightarrow> 'w::len word \<Rightarrow> cint \<Rightarrow> error + Shape" where
  "operator_index_assign s i x =
     (case as_vector s of
        Inl e \<Rightarrow> Inl e
      | Inr v \<Rightarrow> if unat i < length v then Inr (s\<lparr>m_shape := Some (v[unat i := x])\<rparr>)
                else Inl OutOfRange)"

subsection \<open>Concatenation\<close>

definition operator_plus :: "Shape \<Rightarrow> Shape \<Rightarrow> error + Shape" where
  "operator_plus s other =
     (case as_vector s of
        Inl e \<Rightarrow> Inl e
      | Inr this_vec \<Rightarrow>
          (case as_vector other of
             Inl e \<Rightarrow> Inl e
           | Inr other_vec \<Rightarrow> Inr (Shape_optional (Some (this_vec @ other_vec)))))"

subsection \<open>concrete\<close>

fun concrete_loop :: "cint list \<Rightarrow> bool" where
  "concrete_loop [] = True"
| "concrete_loop (dim # dims) = (if dim = - 1 then False else concrete_loop dims)"

definition concrete :: "Shape \<Rightarrow> error + bool" where
  "concrete s = (case as_vector s of Inl e \<Rightarrow> Inl e | Inr v \<Rightarrow> Inr (concrete_loop v))"

subsection \<open>element\_count\<close>

text \<open>
  \<open>result *= dim\<close> multiplies a \<open>size_t\<close> by an \<open>int\<close>: the \<open>int\<close> is converted to
  \<open>size_t\<close> (its value modulo \<open>2 ^ w\<close>) and the product wraps.
\<close>

definition int_to_size_t :: "cint \<Rightarrow> 'w::len word" where
  "int_to_size_t dim = word_of_int (sint dim)"

fun element_count_loop :: "'w::len word \<Rightarrow> cint list \<Rightarrow> 'w word" where
  "element_count_loop result [] = result"
| "element_count_loop result (dim # dims) = element_count_loop (result * int_to_size_t dim) dims"

definition element_count :: "Shape \<Rightarrow> error + 'w::len word" where
  "element_count s =
     (case as_vector s of Inl e \<Rightarrow> Inl e | Inr v \<Rightarrow> Inr (element_count_loop 1 v))"

subsection \<open>calc\_contiguous\_strides\<close>

text \<open>
  The loop \<open>for (int i = (int)shape.size() - 1; i >= 0; --i)\<close> with its \<open>int\<close> counter,
  which starts at the size narrowed to \<open>int\<close>, less one. The counter is only used as an
  index while it is non-negative.
\<close>

function strides_loop :: "cint \<Rightarrow> cint list \<Rightarrow> cint list \<Rightarrow> cint \<Rightarrow> cint list" where
  "strides_loop i shape strides total' =
     (if 0 \<le> sint i
      then strides_loop (i - 1) shape (strides[nat (sint i) := total']) (total' * shape ! nat (sint i))
      else strides)"
  by pat_completeness auto
termination
proof (relation "measure (\<lambda>(i, shape, strides, total'). nat (sint i + 1))")
  show "wf (measure (\<lambda>(i, shape, strides, total'). nat (sint i + 1)))"
    by simp
next
  fix i :: cint and shape strides :: "cint list" and total' :: cint
  assume nonneg: "0 \<le> sint i"
  have below: "sint i < 2 ^ 31"
    using sint_lt [of i] by simp
  have "sint (i - 1) = signed_take_bit 31 (sint i - 1)"
    by (simp add: sint_word_ariths)
  also have "\<dots> = sint i - 1"
    using nonneg below by (intro signed_take_bit_int_eq_self) auto
  finally have "sint (i - 1) = sint i - 1" .
  with nonneg
  show "((i - 1, shape, strides[nat (sint i) := total'], total' * shape ! nat (sint i)),
         (i, shape, strides, total'))
        \<in> measure (\<lambda>(i, shape, strides, total'). nat (sint i + 1))"
    by simp
qed

definition calc_contiguous_strides :: "Shape \<Rightarrow> error + Shape" where
  "calc_contiguous_strides s =
     (if valid s
      then (case as_vector s of
              Inl e \<Rightarrow> Inl e
            | Inr shape \<Rightarrow>
                Inr (Shape_optional (Some
                  (strides_loop (word_of_nat (length shape) - 1) shape
                     (replicate (length shape) 1) 1))))
      else Inr Shape_default)"

subsection \<open>Equality\<close>

definition operator_eq :: "Shape \<Rightarrow> Shape \<Rightarrow> error + bool" where
  "operator_eq s o' =
     (if valid s \<noteq> valid o' then Inr False
      else if \<not> valid s \<and> \<not> valid o' then Inr True
      else (case deref (m_shape s) of
              Inl e \<Rightarrow> Inl e
            | Inr a \<Rightarrow> (case deref (m_shape o') of Inl e \<Rightarrow> Inl e | Inr b \<Rightarrow> Inr (a = b))))"

subsection \<open>to\_string\<close>

text \<open>
  Modelled from the spec: \<open>fmt::format\<close> and \<open>fmt::join\<close> belong to the formatting library,
  which is not part of the header. An \<open>int\<close> is written in decimal, with a leading minus
  sign when negative; \<open>join\<close> writes the first element and then, for each further element,
  the separator followed by the element.
\<close>

definition digit_char :: "nat \<Rightarrow> char" where
  "digit_char n = ''0123456789'' ! n"

function fmt_nat :: "nat \<Rightarrow> string" where
  "fmt_nat n = (if n < 10 then [digit_char n] else fmt_nat (n div 10) @ [digit_char (n mod 10)])"
  by pat_completeness auto
termination
  by (relation "measure (\<lambda>n. n)") auto

definition fmt_int :: "cint \<Rightarrow> string" where
  "fmt_int d = (if sint d < 0 then CHR ''-'' # fmt_nat (nat (- sint d)) else fmt_nat (nat (sint d)))"

fun fmt_join_loop :: "string \<Rightarrow> string list \<Rightarrow> string \<Rightarrow> string" where
  "fmt_join_loop out [] sep = out"
| "fmt_join_loop out (x # xs) sep = fmt_join_loop (out @ sep @ x) xs sep"

fun fmt_join :: "string list \<Rightarrow> string \<Rightarrow> string" where
  "fmt_join [] sep = []"
| "fmt_join (x # xs) sep = fmt_join_loop x xs sep"

definition to_string :: "Shape \<Rightarrow> error + string" where
  "to_string s =
     (if m_shape s = None then Inr ''[invalid]''
      else (case as_vector s of
              Inl e \<Rightarrow> Inl e
            | Inr v \<Rightarrow> Inr (''['' @ fmt_join (map fmt_int v) '', '' @ '']'')))"

subsection \<open>The member functions of Shape as a whole\<close>

text \<open>
  One constructor for each public member function that reads an existing Shape, and the
  error, if any, with which the call on a given Shape ends. Here \<open>size_t\<close> has the 64 bits
  of the targets the library is built for.
\<close>

datatype Shape_op =
    Op_valid
  | Op_size
  | Op_concrete
  | Op_to_string
  | Op_element_count
  | Op_index "64 word"
  | Op_index_assign "64 word" cint
  | Op_plus Shape
  | Op_calc_contiguous_strides
  | Op_eq Shape

definition raised :: "error + 'a \<Rightarrow> error option" where
  "raised r = (case r of Inl e \<Rightarrow> Some e | Inr _ \<Rightarrow> None)"

fun call_raises :: "Shape_op \<Rightarrow> Shape \<Rightarrow> error option" where
  "call_raises Op_valid s = (let b = valid s in None)"
| "call_raises Op_size s = raised (size_Shape s :: error + 64 word)"
| "call_raises Op_concrete s = raised (concrete s)"
| "call_raises Op_to_string s = raised (to_string s)"
| "call_raises Op_element_count s = raised (element_count s :: error + 64 word)"
| "call_raises (Op_index i) s = raised (operator_index s i)"
| "call_raises (Op_index_assign i x) s = raised (operator_index_assign s i x)"
| "call_raises (Op_plus other) s = raised (operator_plus s other)"
| "call_raises Op_calc_contiguous_strides s = raised (calc_contiguous_strides s)"
| "call_raises (Op_eq other) s = raised (operator_eq s other)"

section \<open>CallContext\<close>

text \<open>
  \<open>ref<Device>\<close> is the counted handle of the object library, which is not part of the
  header; it is taken as a wrapper around the device pointer \<open>'dev\<close>, read by \<open>get\<close>.
\<close>

datatype 'dev ref = Ref (get: 'dev)

record 'dev CallContext =
  m_device :: "'dev ref"
  m_call_shape :: Shape
  m_call_mode :: CallMode

definition CallContext_new :: "'dev ref \<Rightarrow> Shape \<Rightarrow> CallMode \<Rightarrow> 'dev CallContext" where
  "CallContext_new device call_shape call_mode =
     \<lparr>m_device = device, m_call_shape = call_shape, m_call_mode = call_mode\<rparr>"

definition device :: "'dev CallContext \<Rightarrow> 'dev" where
  "device c = get (m_device c)"

definition call_shape :: "'dev CallContext \<Rightarrow> Shape" where
  "call_shape c = m_call_shape c"

definition call_mode :: "'dev CallContext \<Rightarrow> CallMode" where
  "call_mode c = m_call_mode c"

section \<open>Properties of Shape\<close>

subsection \<open>Reading the vector\<close>

lemma as_vector_invalid: "\<not> valid s \<Longrightarrow> as_vector s = Inl InvalidState"
  by (simp add: valid_def as_vector_def)

lemma as_vector_Inr_iff: "as_vector s = Inr v \<longleftrightarrow> m_shape s = Some v"
  by (simp add: as_vector_def split: option.splits)

lemma valid_iff_as_vector: "valid s \<longleftrightarrow> (\<exists>v. as_vector s = Inr v)"
  by (auto simp: valid_def as_vector_def split: option.splits)

lemma as_vector_Shape_list: "as_vector (Shape_list v) = Inr v"
  by (simp add: as_vector_def Shape_list_def)

lemma valid_Shape_list: "valid (Shape_list v)"
  by (simp add: valid_def Shape_list_def)

lemma not_valid_Shape_default: "\<not> valid Shape_default"
  by (simp add: valid_def Shape_default_def)

lemma operator_eq_total: "\<exists>b. operator_eq s t = Inr b"
  by (auto simp: operator_eq_def valid_def deref_def)

subsection \<open>The invalid Shape\<close>

text \<open>
  Claim C1. On an invalid Shape (one whose optional is empty, as the default constructor
  and the constructor from an absent sequence leave it), \<open>size\<close>, \<open>element_count\<close>,
  \<open>concrete\<close>, both forms of indexing at any index, and concatenation with any other Shape
  on either side end with \<open>InvalidState\<close>. Equality returns a truth value for every pair
  of Shapes, valid or not; \<open>valid\<close> is a total predicate and has no failing branch at all.
\<close>

theorem invalid_Shape_raises_InvalidState:
  "(\<not> valid s \<longrightarrow>
      (size_Shape s :: error + 'w::len word) = Inl InvalidState
    \<and> (element_count s :: error + 'w word) = Inl InvalidState
    \<and> concrete s = Inl InvalidState
    \<and> (\<forall>i :: 'w word. operator_index s i = Inl InvalidState)
    \<and> (\<forall>(i :: 'w word) x. operator_index_assign s i x = Inl InvalidState)
    \<and> (\<forall>other. operator_plus s other = Inl InvalidState)
    \<and> (\<forall>other. operator_plus other s = Inl InvalidState))
   \<and> (\<forall>other. \<exists>b. operator_eq s other = Inr b)"
proof -
  have plus_right: "operator_plus other s = Inl InvalidState" if "\<not> valid s" for other
  proof (cases "as_vector other")
    case (Inl e)
    then have "e = InvalidState"
      by (simp add: as_vector_def split: option.splits)
    with Inl show ?thesis
      by (simp add: operator_plus_def)
  next
    case (Inr v)
    with that show ?thesis
      by (simp add: operator_plus_def as_vector_invalid)
  qed
  show ?thesis
    using plus_right operator_eq_total
    by (simp add: as_vector_invalid size_Shape_def element_count_def concrete_def
        operator_index_def operator_index_assign_def operator_plus_def)
qed

theorem invalid_Shape_raises_InvalidState_witness:
  "\<not> valid Shape_default
   \<and> \<not> valid (Shape_optional None)
   \<and> (size_Shape Shape_default :: error + 64 word) = Inl InvalidState
   \<and> (element_count Shape_default :: error + 64 word) = Inl InvalidState
   \<and> concrete Shape_default = Inl InvalidState
   \<and> operator_index Shape_default (0 :: 64 word) = Inl InvalidState
   \<and> operator_index_assign Shape_default (0 :: 64 word) 7 = Inl InvalidState
   \<and> operator_plus Shape_default (Shape_list [1, 2]) = Inl InvalidState
   \<and> operator_plus (Shape_list [1, 2]) Shape_default = Inl InvalidState
   \<and> operator_eq Shape_default (Shape_list [1, 2]) = Inr False"
proof -
  have inv: "\<not> valid Shape_default" "\<not> valid (Shape_optional None)"
    by (simp_all add: valid_def Shape_default_def Shape_optional_def)
  have eq: "operator_eq Shape_default (Shape_list [1, 2]) = Inr False"
    by (simp add: operator_eq_def valid_def Shape_default_def Shape_list_def)
  from invalid_Shape_raises_InvalidState [of Shape_default, where 'w = 64] inv eq
  show ?thesis by blast
qed

subsection \<open>Concatenation\<close>

text \<open>
  Claim C2. For valid Shapes \<open>a\<close> and \<open>b\<close> with sequences \<open>xs\<close> and \<open>ys\<close>, \<open>a + b\<close> does
  not fail and is a valid Shape whose sequence is \<open>xs\<close> followed by \<open>ys\<close>, untouched
  element by element; its \<open>size()\<close> is the sum of the two sizes.
\<close>

theorem operator_plus_concatenates:
  assumes "valid a" and "valid b"
  shows "\<exists>xs ys c. as_vector a = Inr xs \<and> as_vector b = Inr ys
           \<and> operator_plus a b = Inr c \<and> valid c \<and> as_vector c = Inr (xs @ ys)
           \<and> (\<exists>n m :: 'w::len word. size_Shape a = Inr n \<and> size_Shape b = Inr m
                 \<and> size_Shape c = Inr (n + m))
           \<and> length (xs @ ys) = length xs + length ys"
proof -
  from assms obtain xs ys where v: "as_vector a = Inr xs" "as_vector b = Inr ys"
    by (auto simp: valid_iff_as_vector)
  let ?c = "Shape_optional (Some (xs @ ys))"
  have c: "operator_plus a b = Inr ?c"
    using v by (simp add: operator_plus_def)
  have vc: "valid ?c" "as_vector ?c = Inr (xs @ ys)"
    by (simp_all add: valid_def as_vector_def Shape_optional_def)
  have sz: "size_Shape a = Inr (word_of_nat (length xs) :: 'w word)"
    "size_Shape b = Inr (word_of_nat (length ys) :: 'w word)"
    "size_Shape ?c = Inr (word_of_nat (length xs) + word_of_nat (length ys) :: 'w word)"
    using v vc by (simp_all add: size_Shape_def)
  from v c vc sz show ?thesis
    by (intro exI conjI) simp_all
qed

theorem operator_plus_concatenates_witness:
  "valid (Shape_list [2, 3]) \<and> valid (Shape_list [4])
   \<and> operator_plus (Shape_list [2, 3]) (Shape_list [4]) = Inr (Shape_list [2, 3, 4])
   \<and> (size_Shape (Shape_list [2, 3, 4]) :: error + 64 word) = Inr 3"
proof -
  have "operator_plus (Shape_list [2, 3]) (Shape_list [4]) = Inr (Shape_list [2, 3, 4])"
    by (simp add: operator_plus_def as_vector_def Shape_list_def Shape_optional_def)
  moreover have "(size_Shape (Shape_list [2, 3, 4]) :: error + 64 word) = Inr 3"
    by (simp add: size_Shape_def as_vector_Shape_list)
  moreover note operator_plus_concatenates
    [OF valid_Shape_list valid_Shape_list, of "[2, 3]" "[4]", where 'w = 64]
  ultimately show ?thesis
    by (simp add: valid_Shape_list)
qed

subsection \<open>concrete\<close>

text \<open>
  Claim C8. On a valid Shape, \<open>concrete()\<close> returns true exactly when no dimension is the
  sentinel \<open>-1\<close>: \<open>Shape([2,-1,4])\<close> is not concrete and \<open>Shape([2,3,4])\<close> is.
\<close>

theorem concrete_iff_no_sentinel:
  "(as_vector s = Inr v \<longrightarrow>
      concrete s = Inr (\<forall>d \<in> set v. d \<noteq> - 1)
    \<and> concrete s = Inr (\<forall>d \<in> set v. sint d \<noteq> - 1))
   \<and> concrete (Shape_list [2, - 1, 4]) = Inr False
   \<and> concrete (Shape_list [2, 3, 4]) = Inr True"
proof -
  have loop: "concrete_loop v = (\<forall>d \<in> set v. d \<noteq> - 1)" for v
    by (induction v) auto
  have sent: "(sint d = - 1) = (d = - 1)" for d :: cint
    using signed_word_eqI [of d "- 1"] by auto
  show ?thesis
    by (simp add: concrete_def loop sent as_vector_Shape_list)
qed

theorem concrete_iff_no_sentinel_witness:
  "as_vector (Shape_list [7, - 1]) = Inr [7, - 1]
   \<and> concrete (Shape_list [7, - 1]) = Inr False
   \<and> as_vector (Shape_list [7, 0]) = Inr [7, 0]
   \<and> concrete (Shape_list [7, 0]) = Inr True"
  using concrete_iff_no_sentinel [of "Shape_list [7, - 1]" "[7, - 1]"]
    concrete_iff_no_sentinel [of "Shape_list [7, 0]" "[7, 0]"]
  by (simp add: as_vector_Shape_list)

subsection \<open>Equality\<close>

text \<open>
  Claim C6. Two invalid Shapes compare equal; a valid and an invalid Shape never do, even
  when the valid one is empty; two valid Shapes compare equal exactly when their sequences
  have the same length and the same elements at every position.
\<close>

theorem operator_eq_cases:
  "(\<not> valid a \<and> \<not> valid b \<longrightarrow> operator_eq a b = Inr True)
   \<and> (valid a \<noteq> valid b \<longrightarrow> operator_eq a b = Inr False)
   \<and> (\<forall>xs ys. as_vector a = Inr xs \<and> as_vector b = Inr ys \<longrightarrow>
         operator_eq a b = Inr (xs = ys)
       \<and> operator_eq a b =
           Inr (length xs = length ys \<and> (\<forall>i < length xs. xs ! i = ys ! i)))"
proof -
  have "operator_eq a b = Inr (xs = ys)"
    if "as_vector a = Inr xs" "as_vector b = Inr ys" for xs ys
    using that by (simp add: operator_eq_def valid_def deref_def as_vector_Inr_iff)
  then show ?thesis
    by (auto simp: operator_eq_def list_eq_iff_nth_eq)
qed

theorem operator_eq_cases_witness:
  "\<not> valid Shape_default \<and> valid (Shape_list [])
   \<and> operator_eq Shape_default Shape_default = Inr True
   \<and> operator_eq Shape_default (Shape_list []) = Inr False
   \<and> operator_eq (Shape_list []) Shape_default = Inr False
   \<and> operator_eq (Shape_list [1, 2]) (Shape_list [1, 2]) = Inr True
   \<and> operator_eq (Shape_list [1, 2]) (Shape_list [2, 1]) = Inr False
   \<and> operator_eq (Shape_list [1, 2]) (Shape_list [1, 2, 3]) = Inr False"
  using operator_eq_cases [of Shape_default Shape_default]
    operator_eq_cases [of Shape_default "Shape_list []"]
    operator_eq_cases [of "Shape_list []" Shape_default]
    operator_eq_cases [of "Shape_list [1, 2]" "Shape_list [1, 2]"]
    operator_eq_cases [of "Shape_list [1, 2]" "Shape_list [2, 1]"]
    operator_eq_cases [of "Shape_list [1, 2]" "Shape_list [1, 2, 3]"]
  by (simp add: as_vector_Shape_list valid_Shape_list not_valid_Shape_default)

section \<open>Properties of element\_count\<close>

lemma element_count_loop_eq:
  "element_count_loop r v = r * word_of_int (prod_list (map sint v))"
  by (induction v arbitrary: r) (simp_all add: int_to_size_t_def wi_hom_syms mult.assoc)

lemma prod_list_nonneg:
  "\<forall>d \<in> set v. 0 \<le> sint (d::cint) \<Longrightarrow> 0 \<le> prod_list (map sint v)"
  by (induction v) simp_all

text \<open>
  Claim C3, as stated: on every valid Shape with non-negative dimensions \<open>element_count()\<close>
  is the product of the dimensions. The product is accumulated in a \<open>size_t\<close>, so with
  64 bits the four dimensions \<open>65536, 65536, 65536, 65536\<close>, whose product is \<open>2 ^ 64\<close>,
  give \<open>0\<close>.
\<close>

theorem element_count_overflow_counterexample:
  "valid (Shape_list [65536, 65536, 65536, 65536])
   \<and> 0 \<le> sint (65536 :: cint)
   \<and> element_count (Shape_list [65536, 65536, 65536, 65536]) = Inr (0 :: 64 word)
   \<and> uint (0 :: 64 word) \<noteq> prod_list (map sint [65536, 65536, 65536, 65536 :: cint])"
  by (simp add: valid_Shape_list element_count_def as_vector_Shape_list int_to_size_t_def)

text \<open>
  Claim C3, amended: on every valid Shape whose dimensions are all non-negative and whose
  product is below \<open>2 ^ w\<close>, the range of \<open>size_t\<close>, \<open>element_count()\<close> returns the product
  of the dimensions; the empty sequence gives \<open>1\<close> and \<open>Shape([2,3,4])\<close> gives \<open>24\<close>.
\<close>

theorem element_count_product:
  "(as_vector s = Inr v \<and> (\<forall>d \<in> set v. 0 \<le> sint d)
      \<and> prod_list (map sint v) < 2 ^ LENGTH('w) \<longrightarrow>
      (\<exists>r :: 'w::len word. element_count s = Inr r \<and> uint r = prod_list (map sint v)))
   \<and> (element_count (Shape_list []) :: error + 'w word) = Inr 1
   \<and> (element_count (Shape_list [2, 3, 4]) :: error + 64 word) = Inr 24"
proof -
  have "uint (word_of_int (prod_list (map sint v)) :: 'w word) = prod_list (map sint v)"
    if "\<forall>d \<in> set v. 0 \<le> sint d" "prod_list (map sint v) < 2 ^ LENGTH('w)"
    using that prod_list_nonneg [of v]
    by (simp add: uint_word_of_int take_bit_eq_mod)
  moreover have "(element_count (Shape_list [2, 3, 4]) :: error + 64 word) = Inr 24"
    by (simp add: element_count_def as_vector_Shape_list int_to_size_t_def)
  ultimately show ?thesis
    by (simp add: element_count_def element_count_loop_eq as_vector_Shape_list)
qed

theorem element_count_product_witness:
  "as_vector (Shape_list [1920, 1080, 3]) = Inr [1920, 1080, 3]
   \<and> 0 \<le> sint (1920 :: cint) \<and> 0 \<le> sint (1080 :: cint) \<and> 0 \<le> sint (3 :: cint)
   \<and> prod_list (map sint [1920, 1080, 3 :: cint]) < 2 ^ 64
   \<and> (\<exists>r :: 64 word. element_count (Shape_list [1920, 1080, 3]) = Inr r \<and> uint r = 6220800)"
  using element_count_product [of "Shape_list [1920, 1080, 3]" "[1920, 1080, 3]", where 'w = 64]
  by (simp add: as_vector_Shape_list)

text \<open>
  Claim C10. On every valid Shape \<open>element_count()\<close> is the product of the dimensions
  modulo \<open>2 ^ w\<close>, an unsigned value and so never negative. A dimension \<open>-1\<close> enters the
  product as \<open>2 ^ w - 1\<close>; with 64 bits \<open>Shape([-1]).element_count()\<close> is \<open>2 ^ 64 - 1\<close>.
\<close>

theorem element_count_modulo:
  "(as_vector s = Inr v \<longrightarrow>
      (\<exists>r :: 'w::len word. element_count s = Inr r
         \<and> uint r = prod_list (map sint v) mod 2 ^ LENGTH('w)
         \<and> 0 \<le> uint r))
   \<and> uint (int_to_size_t (- 1) :: 'w word) = 2 ^ LENGTH('w) - 1
   \<and> (\<exists>r :: 64 word. element_count (Shape_list [- 1]) = Inr r \<and> uint r = 2 ^ 64 - 1)"
proof -
  have "uint (int_to_size_t (- 1) :: 'w word) = 2 ^ LENGTH('w) - 1"
    by (simp add: int_to_size_t_def unsigned_minus_1_eq_mask mask_eq_exp_minus_1)
  moreover
  have "\<exists>r :: 64 word. element_count (Shape_list [- 1]) = Inr r \<and> uint r = 2 ^ 64 - 1"
    by (simp add: element_count_def as_vector_Shape_list int_to_size_t_def
        unsigned_minus_1_eq_mask mask_eq_exp_minus_1)
  ultimately show ?thesis
    by (simp add: element_count_def element_count_loop_eq uint_word_of_int take_bit_eq_mod)
qed

theorem element_count_modulo_witness:
  "as_vector (Shape_list [2, - 1]) = Inr [2, - 1]
   \<and> (\<exists>r :: 64 word. element_count (Shape_list [2, - 1]) = Inr r
         \<and> uint r = 18446744073709551614)"
  using element_count_modulo [of "Shape_list [2, - 1]" "[2, - 1]", where 'w = 64]
  by (simp add: as_vector_Shape_list)

section \<open>Properties of to\_string\<close>

lemma fmt_join_loop_eq:
  "fmt_join_loop out xs sep = out @ concat (map (\<lambda>x. sep @ x) xs)"
  by (induction xs arbitrary: out) simp_all

lemma to_string_total: "\<exists>str. to_string s = Inr str"
  by (simp add: to_string_def as_vector_def split: option.splits)

text \<open>
  Claim C7. \<open>to_string()\<close> returns a string for every Shape. An invalid Shape gives
  \<open>[invalid]\<close>. A valid one gives an opening bracket, the dimensions in order with a comma
  and a space between neighbours, and a closing bracket: nothing between the brackets for
  the empty sequence, and \<open>[5]\<close> for \<open>Shape([5])\<close>.
\<close>

theorem to_string_renders:
  "(\<exists>str. to_string s = Inr str)
   \<and> (\<not> valid s \<longrightarrow> to_string s = Inr ''[invalid]'')
   \<and> (as_vector s = Inr [] \<longrightarrow> to_string s = Inr ''[]'')
   \<and> (\<forall>d ds. as_vector s = Inr (d # ds) \<longrightarrow>
         to_string s =
           Inr (''['' @ fmt_int d @ concat (map (\<lambda>e. '', '' @ fmt_int e) ds) @ '']''))
   \<and> to_string (Shape_list [5]) = Inr ''[5]''
   \<and> to_string Shape_default = Inr ''[invalid]''"
proof -
  have "to_string (Shape_list [5]) = Inr ''[5]''"
    by (simp add: to_string_def Shape_list_def as_vector_def fmt_int_def digit_char_def)
  moreover have "to_string Shape_default = Inr ''[invalid]''"
    by (simp add: to_string_def Shape_default_def)
  ultimately show ?thesis
    using to_string_total [of s]
    by (auto simp: to_string_def valid_def as_vector_Inr_iff as_vector_def fmt_join_loop_eq o_def)
qed

theorem to_string_renders_witness:
  "as_vector (Shape_list [640, - 1, 0]) = Inr [640, - 1, 0]
   \<and> to_string (Shape_list [640, - 1, 0]) = Inr ''[640, -1, 0]''
   \<and> as_vector (Shape_list []) = Inr []
   \<and> to_string (Shape_list []) = Inr ''[]''
   \<and> \<not> valid (Shape_optional None)
   \<and> to_string (Shape_optional None) = Inr ''[invalid]''"
proof -
  have "fmt_int 640 = ''640''" "fmt_int (- 1) = ''-1''" "fmt_int 0 = ''0''"
    by (simp_all add: fmt_int_def digit_char_def)
  moreover have "\<not> valid (Shape_optional None)"
    by (simp add: valid_def Shape_optional_def)
  ultimately show ?thesis
    using to_string_renders [of "Shape_list [640, - 1, 0]"]
      to_string_renders [of "Shape_list []"]
      to_string_renders [of "Shape_optional None"]
    by (simp add: as_vector_Shape_list)
qed

section \<open>Properties of calc\_contiguous\_strides\<close>

lemma raised_simps: "raised (Inl e) = Some e" "raised (Inr x) = None"
  by (simp_all add: raised_def)

text \<open>
  Claim C5, as stated: \<open>calc_contiguous_strides()\<close> is the only operation of Shape that
  does not end with \<open>InvalidState\<close> on an invalid Shape. \<open>to_string()\<close> is another one: on
  the default Shape it returns \<open>[invalid]\<close>.
\<close>

theorem only_graceful_operation_counterexample:
  "\<not> valid Shape_default
   \<and> to_string Shape_default = Inr ''[invalid]''
   \<and> call_raises Op_to_string Shape_default \<noteq> Some InvalidState
   \<and> Op_to_string \<noteq> Op_calc_contiguous_strides"
  by (simp add: valid_def to_string_def Shape_default_def raised_def)

text \<open>
  Claim C5, amended: on an invalid Shape \<open>calc_contiguous_strides()\<close> does not fail and
  returns an invalid Shape. The member functions that do not end with \<open>InvalidState\<close> on
  an invalid Shape are exactly \<open>calc_contiguous_strides\<close>, \<open>valid\<close>, \<open>to_string\<close> and
  equality; all the others (\<open>size\<close>, \<open>concrete\<close>, \<open>element_count\<close>, indexing,
  concatenation) end with \<open>InvalidState\<close>, and no call ends with any other error.
\<close>

theorem calc_contiguous_strides_invalid:
  "\<not> valid s \<longrightarrow>
     (\<exists>t. calc_contiguous_strides s = Inr t \<and> \<not> valid t)
   \<and> (\<forall>op. call_raises op s \<noteq> Some InvalidState \<longleftrightarrow>
          op = Op_calc_contiguous_strides \<or> op = Op_valid \<or> op = Op_to_string
          \<or> (\<exists>other. op = Op_eq other))
   \<and> (\<forall>op. call_raises op s = None \<or> call_raises op s = Some InvalidState)"
proof (intro impI conjI allI)
  assume inv: "\<not> valid s"
  then show "\<exists>t. calc_contiguous_strides s = Inr t \<and> \<not> valid t"
    by (simp add: calc_contiguous_strides_def not_valid_Shape_default)
  have none: "m_shape s = None"
    using inv by (simp add: valid_def)
  have eq: "raised (operator_eq s other) = None" for other
    using operator_eq_total [of s other] by (auto simp: raised_def)
  have acc: "as_vector s = Inl InvalidState"
    using inv by (rule as_vector_invalid)
  fix op
  show "call_raises op s \<noteq> Some InvalidState \<longleftrightarrow>
          op = Op_calc_contiguous_strides \<or> op = Op_valid \<or> op = Op_to_string
          \<or> (\<exists>other. op = Op_eq other)"
    by (cases op)
      (simp_all add: eq acc none inv raised_simps size_Shape_def concrete_def to_string_def
        element_count_def operator_index_def operator_index_assign_def operator_plus_def
        calc_contiguous_strides_def)
  show "call_raises op s = None \<or> call_raises op s = Some InvalidState"
    by (cases op)
      (simp_all add: eq acc none inv raised_simps size_Shape_def concrete_def to_string_def
        element_count_def operator_index_def operator_index_assign_def operator_plus_def
        calc_contiguous_strides_def)
qed

theorem calc_contiguous_strides_invalid_witness:
  "\<not> valid Shape_default
   \<and> calc_contiguous_strides Shape_default = Inr Shape_default
   \<and> call_raises Op_calc_contiguous_strides Shape_default = None
   \<and> call_raises (Op_plus (Shape_list [1])) Shape_default = Some InvalidState
   \<and> call_raises Op_size Shape_default = Some InvalidState"
proof -
  have "calc_contiguous_strides Shape_default = Inr Shape_default"
    by (simp add: calc_contiguous_strides_def not_valid_Shape_default)
  then show ?thesis
    using calc_contiguous_strides_invalid [of Shape_default] not_valid_Shape_default
    by (auto simp: raised_simps)
qed

subsection \<open>The strides of a valid Shape\<close>

text \<open>
  The loop is unfolded one iteration at a time. Started at \<open>k - 1\<close> with running product
  \<open>t\<close>, it fills the positions below \<open>k\<close> and leaves the others as they are.
\<close>

declare strides_loop.simps [simp del]

lemma sint_word_of_nat_cint:
  assumes "k < 2 ^ 31"
  shows "sint (word_of_nat k :: cint) = int k"
proof -
  have "sint (word_of_nat k :: cint) = signed_take_bit 31 (int k)"
    by (simp add: signed_of_nat)
  also have "\<dots> = int k"
    using assms by (intro signed_take_bit_int_eq_self) auto
  finally show ?thesis .
qed

text \<open>
  Whenever the loop body runs at all, its first index lies inside the two vectors, whatever
  their length; the later indices are smaller. So no iteration reads or writes out of range.
\<close>

lemma strides_loop_index_in_range:
  assumes "0 \<le> sint (word_of_nat n - 1 :: cint)"
  shows "nat (sint (word_of_nat n - 1 :: cint)) < n"
proof (cases "n < 2 ^ 31")
  case True
  show ?thesis
  proof (cases n)
    case 0
    with assms show ?thesis by simp
  next
    case (Suc k)
    with True have "sint (word_of_nat n - 1 :: cint) = int k"
      by (simp add: sint_word_of_nat_cint)
    with Suc show ?thesis by simp
  qed
next
  case False
  have "sint (word_of_nat n - 1 :: cint) < 2 ^ 31"
    using sint_lt [of "word_of_nat n - 1 :: cint"] by simp
  with assms have "nat (sint (word_of_nat n - 1 :: cint)) < 2 ^ 31"
    by (simp add: nat_less_iff)
  with False show ?thesis by simp
qed

lemma strides_loop_stop: "strides_loop (- 1) shape strides t = strides"
  by (subst strides_loop.simps) simp

lemma strides_loop_step:
  assumes "k < 2 ^ 31"
  shows "strides_loop (word_of_nat (Suc k) - 1) shape strides t =
         strides_loop (word_of_nat k - 1) shape (strides[k := t]) (t * shape ! k)"
  using assms by (subst strides_loop.simps) (simp add: sint_word_of_nat_cint)

lemma strides_loop_eq:
  assumes "k \<le> length shape" and "length shape < 2 ^ 31" and "length strides = length shape"
  shows "strides_loop (word_of_nat k - 1) shape strides t =
         map (\<lambda>j. t * prod_list (drop (Suc j) (take k shape))) [0..<k] @ drop k strides"
  using assms
proof (induction k arbitrary: strides t)
  case 0
  then show ?case by (simp add: strides_loop_stop)
next
  case (Suc k)
  from Suc.prems have k: "k < length shape" "k < 2 ^ 31" "k < length strides"
    by simp_all
  have tk: "take (Suc k) shape = take k shape @ [shape ! k]"
    using k by (simp add: take_Suc_conv_app_nth)
  have left: "t * shape ! k * prod_list (drop (Suc j) (take k shape)) =
        t * prod_list (drop (Suc j) (take (Suc k) shape))" if "j < k" for j
    using that k by (simp add: tk mult_ac)
  have "strides_loop (word_of_nat (Suc k) - 1) shape strides t =
        strides_loop (word_of_nat k - 1) shape (strides[k := t]) (t * shape ! k)"
    using k(2) by (rule strides_loop_step)
  also have "\<dots> = map (\<lambda>j. t * shape ! k * prod_list (drop (Suc j) (take k shape))) [0..<k]
                    @ drop k (strides[k := t])"
    using Suc.prems k by (intro Suc.IH) simp_all
  also have "drop k (strides[k := t]) = t # drop (Suc k) strides"
    using k by (simp add: drop_update_swap Cons_nth_drop_Suc [symmetric])
  also have "map (\<lambda>j. t * shape ! k * prod_list (drop (Suc j) (take k shape))) [0..<k] =
             map (\<lambda>j. t * prod_list (drop (Suc j) (take (Suc k) shape))) [0..<k]"
    using left by simp
  finally show ?case
    using k by simp
qed

lemma prod_list_word_sint:
  "prod_list ws = (word_of_int (prod_list (map sint ws)) :: cint)"
  by (induction ws) (simp_all add: wi_hom_syms)


lemma sint_prod_list_exact:
  assumes "- (2 ^ 31) \<le> prod_list (map sint ws)" and "prod_list (map sint ws) < 2 ^ 31"
  shows "sint (prod_list ws :: cint) = prod_list (map sint ws)"
proof -
  have "sint (prod_list ws :: cint) = signed_take_bit 31 (prod_list (map sint ws))"
    by (subst prod_list_word_sint) (simp add: sint_sbintrunc')
  also have "\<dots> = prod_list (map sint ws)"
    using assms by (intro signed_take_bit_int_eq_self) auto
  finally show ?thesis .
qed

lemma calc_contiguous_strides_valid:
  assumes "as_vector s = Inr v" and "length v < 2 ^ 31"
  shows "calc_contiguous_strides s =
         Inr (Shape_list (map (\<lambda>i. prod_list (drop (Suc i) v)) [0..<length v]))"
proof -
  have "valid s"
    using assms(1) by (auto simp: valid_iff_as_vector)
  moreover
  have "strides_loop (word_of_nat (length v) - 1) v (replicate (length v) 1) 1 =
        map (\<lambda>i. prod_list (drop (Suc i) v)) [0..<length v]"
    using assms(2) by (simp add: strides_loop_eq)
  ultimately show ?thesis
    using assms(1) by (simp add: calc_contiguous_strides_def Shape_optional_def Shape_list_def)
qed

text \<open>
  Claim C4, as stated: on every valid Shape the stride at \<open>i\<close> is the product of the
  dimensions to its right. The strides are \<open>int\<close> values: for \<open>Shape([2, 65536, 65536])\<close>
  the product to the right of the first dimension is \<open>2 ^ 32\<close>, which no \<open>int\<close> holds, and
  the first stride comes out as \<open>0\<close>. The loop counter is an \<open>int\<close> as well: with
  \<open>2 ^ 31 + 1\<close> dimensions it starts negative, the loop body never runs, and every stride
  keeps its initial value \<open>1\<close>, also the one to the left of a last dimension \<open>2\<close>.
\<close>

theorem calc_contiguous_strides_overflow_counterexample:
  "valid (Shape_list [2, 65536, 65536])
   \<and> calc_contiguous_strides (Shape_list [2, 65536, 65536]) = Inr (Shape_list [0, 65536, 1])
   \<and> sint (0 :: cint) \<noteq> prod_list (map sint [65536, 65536 :: cint])
   \<and> valid (Shape_list (replicate (2 ^ 31) 1 @ [2]))
   \<and> calc_contiguous_strides (Shape_list (replicate (2 ^ 31) 1 @ [2])) =
       Inr (Shape_list (replicate (2 ^ 31 + 1) 1))
   \<and> (replicate (2 ^ 31 + 1) 1 ! (2 ^ 31 - 1) :: cint) = 1
   \<and> prod_list (drop (2 ^ 31) (replicate (2 ^ 31) 1 @ [2 :: cint])) = 2"
proof -
  have small: "calc_contiguous_strides (Shape_list [2, 65536, 65536]) =
               Inr (Shape_list [0, 65536, 1])"
    by (simp add: calc_contiguous_strides_def valid_def as_vector_def
        Shape_optional_def Shape_list_def strides_loop.simps)
  have loop: "strides_loop (word_of_nat (length (replicate (2 ^ 31) (1::cint) @ [2])) - 1)
          (replicate (2 ^ 31) 1 @ [2])
          (replicate (length (replicate (2 ^ 31) (1::cint) @ [2])) 1) 1
        = replicate (2 ^ 31 + 1) 1"
    by (subst strides_loop.simps) simp
  have "calc_contiguous_strides (Shape_list (replicate (2 ^ 31) 1 @ [2])) =
        Inr (Shape_optional (Some (replicate (2 ^ 31 + 1) 1)))"
    by (simp only: calc_contiguous_strides_def valid_Shape_list as_vector_Shape_list
        if_True sum.case loop)
  then have long: "calc_contiguous_strides (Shape_list (replicate (2 ^ 31) 1 @ [2])) =
                   Inr (Shape_list (replicate (2 ^ 31 + 1) 1))"
    by (simp only: Shape_optional_def Shape_list_def)
  show ?thesis
    using small long by (simp add: valid_Shape_list)
qed

text \<open>
  Claim C4, amended: on every valid Shape with fewer than \<open>2 ^ 31\<close> dimensions
  \<open>calc_contiguous_strides()\<close> does not fail and returns a valid Shape of the same
  dimension count, whose stride at \<open>i\<close> is the product of the dimensions to the right of
  \<open>i\<close> in \<open>int\<close> arithmetic, and so the exact product whenever that product lies in the
  range of \<open>int\<close>; the last stride is \<open>1\<close>, and \<open>Shape([2,3,4])\<close> gives \<open>Shape([12,4,1])\<close>.
\<close>

theorem calc_contiguous_strides_products:
  "(as_vector s = Inr v \<and> length v < 2 ^ 31 \<longrightarrow>
      (\<exists>t. calc_contiguous_strides s = Inr (Shape_list t)
         \<and> valid (Shape_list t)
         \<and> length t = length v
         \<and> (\<forall>i < length v. t ! i = prod_list (drop (Suc i) v))
         \<and> (\<forall>i < length v.
               - (2 ^ 31) \<le> prod_list (map sint (drop (Suc i) v))
               \<and> prod_list (map sint (drop (Suc i) v)) < 2 ^ 31 \<longrightarrow>
               sint (t ! i) = prod_list (map sint (drop (Suc i) v)))
         \<and> (v \<noteq> [] \<longrightarrow> last t = 1)))
   \<and> calc_contiguous_strides (Shape_list [2, 3, 4]) = Inr (Shape_list [12, 4, 1])"
proof (intro conjI impI)
  assume a: "as_vector s = Inr v \<and> length v < 2 ^ 31"
  let ?t = "map (\<lambda>i. prod_list (drop (Suc i) v)) [0..<length v]"
  have "calc_contiguous_strides s = Inr (Shape_list ?t)"
    using a by (simp add: calc_contiguous_strides_valid)
  moreover have "\<forall>i < length v. ?t ! i = prod_list (drop (Suc i) v)"
    by simp
  moreover have "\<forall>i < length v.
      - (2 ^ 31) \<le> prod_list (map sint (drop (Suc i) v))
      \<and> prod_list (map sint (drop (Suc i) v)) < 2 ^ 31 \<longrightarrow>
      sint (?t ! i) = prod_list (map sint (drop (Suc i) v))"
    by (simp add: sint_prod_list_exact drop_map)
  moreover have "last ?t = 1" if "v \<noteq> []"
    using that by (simp add: last_map last_conv_nth)
  ultimately
  show "\<exists>t. calc_contiguous_strides s = Inr (Shape_list t)
         \<and> valid (Shape_list t)
         \<and> length t = length v
         \<and> (\<forall>i < length v. t ! i = prod_list (drop (Suc i) v))
         \<and> (\<forall>i < length v.
               - (2 ^ 31) \<le> prod_list (map sint (drop (Suc i) v))
               \<and> prod_list (map sint (drop (Suc i) v)) < 2 ^ 31 \<longrightarrow>
               sint (t ! i) = prod_list (map sint (drop (Suc i) v)))
         \<and> (v \<noteq> [] \<longrightarrow> last t = 1)"
    by (intro exI [of _ ?t] conjI) (simp_all add: valid_Shape_list)
next
  show "calc_contiguous_strides (Shape_list [2, 3, 4]) = Inr (Shape_list [12, 4, 1])"
    by (simp add: calc_contiguous_strides_def valid_def as_vector_def
        Shape_optional_def Shape_list_def strides_loop.simps)
qed

theorem calc_contiguous_strides_products_witness:
  "as_vector (Shape_list [4, 5, 6]) = Inr [4, 5, 6]
   \<and> length [4, 5, 6 :: cint] < 2 ^ 31
   \<and> (\<exists>t. calc_contiguous_strides (Shape_list [4, 5, 6]) = Inr (Shape_list t)
         \<and> length t = 3 \<and> sint (t ! 0) = 30 \<and> sint (t ! 1) = 6 \<and> sint (t ! 2) = 1)"
  using calc_contiguous_strides_products [of "Shape_list [4, 5, 6]" "[4, 5, 6]"]
  by (auto simp: as_vector_Shape_list)

section \<open>Properties of CallContext\<close>

text \<open>
  Claim C9. A CallContext built from a device handle, a Shape (valid or not) and any of
  the three call modes gives back, through \<open>device()\<close>, \<open>call_shape()\<close> and
  \<open>call_mode()\<close>, the pointer of that handle, that Shape and that mode. The three
  accessors are the whole public interface besides the constructor; they are \<open>const\<close>,
  have no failing branch and return no new context, so the stored fields never change.
\<close>

theorem CallContext_round_trip:
  "device (CallContext_new d s m) = get d
   \<and> call_shape (CallContext_new d s m) = s
   \<and> call_mode (CallContext_new d s m) = m"
  by (simp add: CallContext_new_def device_def call_shape_def call_mode_def)

end
